theory Spec2Isabelle
  imports Complex_Main "HOL-Library.Sublist"
begin

section \<open>Asynchronous code as state passing with exceptions\<close>

text \<open>
  Every \<open>async\<close> function of the recorder runs its awaits one after the other, so a call
  is a function from the state before to a result and the state after. A rejected
  promise (a thrown exception) is the result \<open>Inl e\<close>; the effects that happened before
  the exception stay in the state.
\<close>

text \<open>Messages with numbers in them keep the numbers as they are: \<open>ToFixed n x\<close> is
  \<open>x.toFixed(n)\<close>.\<close>

datatype part = Str string | Num real | ToFixed nat real

type_synonym message = "part list"

datatype error = Error message

type_synonym ('s, 'a) prog = "'s \<Rightarrow> (error + 'a) \<times> 's"

definition ret :: "'a \<Rightarrow> ('s, 'a) prog" where
  "ret a s = (Inr a, s)"


definition and_then :: "('s, 'a) prog \<Rightarrow> ('a \<Rightarrow> ('s, 'b) prog) \<Rightarrow> ('s, 'b) prog" where
  "and_then m f s = (case m s of (Inl e, s') \<Rightarrow> (Inl e, s') | (Inr a, s') \<Rightarrow> f a s')"

definition try_catch :: "('s, 'a) prog \<Rightarrow> (error \<Rightarrow> ('s, 'a) prog) \<Rightarrow> ('s, 'a) prog" where
  "try_catch m h s = (case m s of (Inl e, s') \<Rightarrow> h e s' | (Inr a, s') \<Rightarrow> (Inr a, s'))"


text \<open>JavaScript's \<open>v ?? d\<close> on an optional field and \<open>v || d\<close> on a parsed number
  (\<open>None\<close> stands for \<open>NaN\<close>; both \<open>NaN\<close> and \<open>0\<close> are falsy).\<close>

definition nullish :: "'a option \<Rightarrow> 'a \<Rightarrow> 'a" where
  "nullish v d = (case v of None \<Rightarrow> d | Some x \<Rightarrow> x)"

definition or_else :: "real option \<Rightarrow> real \<Rightarrow> real" where
  "or_else v d = (case v of None \<Rightarrow> d | Some x \<Rightarrow> if x = 0 then d else x)"

section \<open>Double arithmetic\<close>

text \<open>
  A JavaScript number is an IEEE 754 double. Numbers are modelled as reals, and where a
  claim depends on a computed position being exactly some value the rounding of the
  arithmetic is written out: \<open>fl x\<close> is the double nearest to \<open>x\<close> (53 significant bits, ties
  to the even neighbour), for \<open>x\<close> in the range of the normal doubles; overflow, subnormal
  numbers and \<open>NaN\<close> are outside the model. \<open>binade x\<close> is the exponent \<open>e\<close> with
  \<open>2^e \<le> x < 2^(e+1)\<close>. Sum, difference, product and quotient of doubles are the rounded
  exact results.
\<close>

function binade :: "real \<Rightarrow> int" where
  "binade x =
     (if x \<le> 0 then 0
      else if 2 \<le> x then binade (x / 2) + 1
      else if x < 1 then binade (x * 2) - 1
      else 0)"
  by pat_completeness auto
termination
proof (relation "measure (\<lambda>x. nat \<bar>\<lfloor>log 2 x\<rfloor>\<bar>)")
  show "wf (measure (\<lambda>x. nat \<bar>\<lfloor>log 2 x\<rfloor>\<bar>))" by simp
next
  fix x :: real
  assume a: "\<not> x \<le> 0" "2 \<le> x"
  have l: "log 2 (x / 2) = log 2 x - 1" using a by (simp add: log_divide)
  have "1 \<le> log 2 x" using a by (simp add: le_log_iff)
  then have "1 \<le> \<lfloor>log 2 x\<rfloor>" by (simp add: le_floor_iff)
  then show "(x / 2, x) \<in> measure (\<lambda>x. nat \<bar>\<lfloor>log 2 x\<rfloor>\<bar>)"
    by (simp add: l)
next
  fix x :: real
  assume a: "\<not> x \<le> 0" "\<not> 2 \<le> x" "x < 1"
  have l: "log 2 (x * 2) = log 2 x + 1" using a by (simp add: log_mult)
  have "log 2 x < 0" using a by simp
  then have "\<lfloor>log 2 x\<rfloor> < 0" by (simp add: floor_less_iff)
  moreover have "\<lfloor>log 2 (x * 2)\<rfloor> = \<lfloor>log 2 x\<rfloor> + 1" by (simp add: l)
  ultimately have "nat \<bar>\<lfloor>log 2 (x * 2)\<rfloor>\<bar> < nat \<bar>\<lfloor>log 2 x\<rfloor>\<bar>" by linarith
  then show "(x * 2, x) \<in> measure (\<lambda>x. nat \<bar>\<lfloor>log 2 x\<rfloor>\<bar>)"
    by (simp only: in_measure)
qed

declare binade.simps [simp del]

definition round_even :: "real \<Rightarrow> int" where
  "round_even x =
     (let n = \<lfloor>x\<rfloor>; r = x - of_int n
      in if r < 1 / 2 then n else if 1 / 2 < r then n + 1 else if even n then n else n + 1)"

definition fl :: "real \<Rightarrow> real" where
  "fl x =
     (if x = 0 then 0
      else (let e = binade \<bar>x\<bar>
            in of_int (round_even (x * 2 powi (52 - e))) * 2 powi (e - 52)))"

definition dadd :: "real \<Rightarrow> real \<Rightarrow> real" where
  "dadd a b = fl (a + b)"

definition dsub :: "real \<Rightarrow> real \<Rightarrow> real" where
  "dsub a b = fl (a - b)"

definition dmul :: "real \<Rightarrow> real \<Rightarrow> real" where
  "dmul a b = fl (a * b)"

definition ddiv :: "real \<Rightarrow> real \<Rightarrow> real" where
  "ddiv a b = fl (a / b)"

section \<open>The page\<close>

text \<open>
  Lengths, durations and random values are reals; the arithmetic on them is exact except
  in the positions \<open>moveTo\<close> computes, which are rounded as doubles. Infinities and \<open>NaN\<close>
  are outside the model (except for the \<open>NaN\<close> of \<open>parseFloat\<close>, see \<open>cursor\<close>).
\<close>

record box =
  box_x :: real
  box_y :: real
  box_width :: real
  box_height :: real

text \<open>What the recorder reads of an element: Playwright's \<open>boundingBox()\<close> (null for an
  element that is not visible) and the DOM's \<open>getBoundingClientRect()\<close>.\<close>

record element =
  boundingBox :: "box option"
  clientRect :: box

text \<open>The fake cursor element: \<open>parseFloat\<close> of its \<open>style.left\<close> and \<open>style.top\<close>.\<close>

record cursor =
  style_left :: "real option"
  style_top :: "real option"

datatype overlay_kind = Highlight | Ripple | Zoom

datatype style_sheet = HideDevTools | RippleKeyframes | ZoomKeyframes real

datatype event =
    ConsoleWarn string
  | LoggerWarn string
  | Timeout real
  | Overlay overlay_kind box real
  | StyleAdded style_sheet
  | CursorCreated
  | CursorStyle real real
  | MouseMove real real
  | Click string
  | KeyboardType char
  | Goto string

text \<open>
  The state of one page. \<open>elements\<close> is \<open>document.querySelector\<close> (and \<open>page.$\<close>): the
  first element a selector matches, if any; the model keeps it fixed during a call.
  \<open>fault\<close> is the environment: the \<open>n\<close>-th call into the page throws when \<open>fault n\<close> is
  an error (a closed page, a crashed browser, an invalid selector). \<open>random\<close> is the
  sequence of values \<open>Math.random()\<close> returns. \<open>css_px x\<close> is the number \<open>parseFloat\<close> reads
  back from a length style that was set to \<open>x\<close> pixels (the browser serialises the length
  with the precision it keeps). \<open>events\<close> is the trace of effects, in order.
\<close>

record page =
  fault :: "nat \<Rightarrow> error option"
  tick :: nat
  random :: "nat \<Rightarrow> real"
  drawn :: nat
  css_px :: "real \<Rightarrow> real"
  elements :: "string \<Rightarrow> element option"
  scrollX :: real
  scrollY :: real
  cursor :: "cursor option"
  styleIds :: "string list"
  events :: "event list"

definition emit :: "event \<Rightarrow> page \<Rightarrow> page" where
  "emit e s = s\<lparr>events := events s @ [e]\<rparr>"

definition call :: "(page, 'a) prog \<Rightarrow> (page, 'a) prog" where
  "call f s =
     (case fault s (tick s) of
        Some e \<Rightarrow> (Inl e, s\<lparr>tick := Suc (tick s)\<rparr>)
      | None \<Rightarrow> f (s\<lparr>tick := Suc (tick s)\<rparr>))"

definition evaluate :: "(page, 'a) prog \<Rightarrow> (page, 'a) prog" where
  "evaluate script = call script"

definition waitForTimeout :: "real \<Rightarrow> (page, unit) prog" where
  "waitForTimeout ms = call (\<lambda>s. (Inr (), emit (Timeout ms) s))"

definition logger_warn :: "string \<Rightarrow> (page, unit) prog" where
  "logger_warn msg s = (Inr (), emit (LoggerWarn msg) s)"

section \<open>highlight\<close>

definition highlight_script :: "string \<Rightarrow> real \<Rightarrow> (page, unit) prog" where
  "highlight_script selector durationMs s =
     (case elements s selector of
        None \<Rightarrow>
          (Inr (), emit (ConsoleWarn (''Highlight: Element not found for selector: '' @ selector)) s)
      | Some element \<Rightarrow>
          (let rect = clientRect element;
               overlay = \<lparr>box_x = box_x rect + scrollX s - 3,
                          box_y = box_y rect + scrollY s - 3,
                          box_width = box_width rect + 6,
                          box_height = box_height rect + 6\<rparr>
           in (Inr (), emit (Overlay Highlight overlay (durationMs + 200)) s)))"

definition highlightElement :: "string \<Rightarrow> real \<Rightarrow> (page, unit) prog" where
  "highlightElement selector durationMs =
     try_catch
       (and_then (evaluate (highlight_script selector durationMs)) (\<lambda>_.
        waitForTimeout (durationMs + 200)))
       (\<lambda>_. logger_warn (''Failed to highlight element: '' @ selector))"

definition highlight :: "string \<Rightarrow> real option \<Rightarrow> (page, unit) prog" where
  "highlight selector durationMs = highlightElement selector (nullish durationMs 500)"


section \<open>Cursor movement\<close>

text \<open>Modelled from the spec: the option records of the helpers, whose declarations are
  not among the sources (\<open>{delay, variation}\<close> for typing, \<open>{duration, steps}\<close> for movement,
  \<open>{hoverDuration, moveDuration}\<close> for a click, \<open>{scale, duration}\<close> for a zoom). Every field
  is optional, and so is the record; the defaults are those of the helpers. \<open>steps\<close> counts
  the rounds of the loop of \<open>moveTo\<close>, a whole number.\<close>

record MoveOptions =
  move_duration :: "real option"
  move_steps :: "int option"

record ClickOptions =
  click_hoverDuration :: "real option"
  click_moveDuration :: "real option"

record TypeOptions =
  type_delay :: "real option"
  type_variation :: "real option"

record ZoomOptions =
  zoom_scale :: "real option"
  zoom_duration :: "real option"

text \<open>\<open>options?.field\<close>\<close>

definition chain :: "'o option \<Rightarrow> ('o \<Rightarrow> 'a option) \<Rightarrow> 'a option" where
  "chain options field = (case options of None \<Rightarrow> None | Some opts \<Rightarrow> field opts)"


definition updateCursorPosition :: "real \<Rightarrow> real \<Rightarrow> (page, unit) prog" where
  "updateCursorPosition x y =
     evaluate (\<lambda>s.
       case cursor s of
         Some c \<Rightarrow>
           (Inr (), emit (CursorStyle x y)
                      (s\<lparr>cursor := Some \<lparr>style_left = Some (css_px s x),
                                         style_top = Some (css_px s y)\<rparr>\<rparr>))
       | None \<Rightarrow> (Inr (), s))"

definition mouse_move :: "real \<Rightarrow> real \<Rightarrow> (page, unit) prog" where
  "mouse_move x y = call (\<lambda>s. (Inr (), emit (MouseMove x y) s))"

text \<open>\<open>page.$(selector)\<close> and \<open>element.boundingBox()\<close>\<close>

definition page_query :: "string \<Rightarrow> (page, element option) prog" where
  "page_query selector = call (\<lambda>s. (Inr (elements s selector), s))"

definition element_boundingBox :: "element \<Rightarrow> (page, box option) prog" where
  "element_boundingBox el = call (\<lambda>s. (Inr (boundingBox el), s))"

text \<open>The script \<open>moveTo\<close> evaluates in the page to read where the cursor is.\<close>

definition cursor_position :: "page \<Rightarrow> real \<times> real" where
  "cursor_position s =
     (case cursor s of
        Some c \<Rightarrow> (or_else (style_left c) 100, or_else (style_top c) 100)
      | None \<Rightarrow> (100, 100))"

definition currentPos_script :: "(page, real \<times> real) prog" where
  "currentPos_script s = (Inr (cursor_position s), s)"

text \<open>The body of the loop of \<open>moveTo\<close>: the eased progress at step \<open>i\<close> of \<open>steps\<close> and the
  position it gives. \<open>eased\<close> is the exact value of the curve (the accuracy of \<open>Math.pow\<close>
  is left to the implementation); the double the code multiplies by is taken to be the
  nearest one, which at \<open>i = steps\<close> is exactly 1, as in the code. The position is computed
  in doubles: a difference, a product and a sum, each rounded.\<close>

definition eased :: "int \<Rightarrow> int \<Rightarrow> real" where
  "eased steps i = (let progress = of_int i / of_int steps in 1 - (1 - progress) ^ 3)"

definition step_position :: "real \<times> real \<Rightarrow> real \<times> real \<Rightarrow> int \<Rightarrow> int \<Rightarrow> real \<times> real" where
  "step_position currentPos target steps i =
     (dadd (fst currentPos) (dmul (dsub (fst target) (fst currentPos)) (fl (eased steps i))),
      dadd (snd currentPos) (dmul (dsub (snd target) (snd currentPos)) (fl (eased steps i))))"

text \<open>\<open>for (let i = 1; i <= steps; i++)\<close>, from the current \<open>i\<close> on.\<close>

function move_loop ::
  "real \<times> real \<Rightarrow> real \<times> real \<Rightarrow> real \<Rightarrow> int \<Rightarrow> int \<Rightarrow> (page, unit) prog" where
  "move_loop currentPos target stepDelay steps i s =
     (if i \<le> steps then
        (let (x, y) = step_position currentPos target steps i in
         case and_then (updateCursorPosition x y) (\<lambda>_.
              and_then (mouse_move x y) (\<lambda>_.
              waitForTimeout stepDelay)) s of
           (Inl e, s') \<Rightarrow> (Inl e, s')
         | (Inr u, s') \<Rightarrow> move_loop currentPos target stepDelay steps (i + 1) s')
      else (Inr (), s))"
  by pat_completeness auto
termination
  by (relation "measure (\<lambda>(currentPos, target, stepDelay, steps, i, s). nat (steps + 1 - i))") auto

definition moveTo :: "string \<Rightarrow> MoveOptions option \<Rightarrow> (page, unit) prog" where
  "moveTo selector options =
     (let duration = nullish (chain options move_duration) 500;
          steps = nullish (chain options move_steps) 20
      in try_catch
           (and_then (page_query selector) (\<lambda>element.
              case element of
                None \<Rightarrow> logger_warn (''Element not found for moveTo: '' @ selector)
              | Some el \<Rightarrow>
                  and_then (element_boundingBox el) (\<lambda>box.
                    case box of
                      None \<Rightarrow> ret ()
                    | Some b \<Rightarrow>
                        (let targetX = dadd (box_x b) (ddiv (box_width b) 2);
                             targetY = dadd (box_y b) (ddiv (box_height b) 2)
                         in and_then (evaluate currentPos_script) (\<lambda>currentPos.
                            let stepDelay = duration / of_int steps
                            in move_loop currentPos (targetX, targetY) stepDelay steps 1)))))
           (\<lambda>_. logger_warn (''Failed to move to element: '' @ selector)))"

section \<open>Animated click, typing and zoom\<close>

text \<open>\<open>page.click(selector)\<close> waits for the element and throws a timeout error when the
  selector matches nothing.\<close>

definition page_click :: "string \<Rightarrow> (page, unit) prog" where
  "page_click selector =
     call (\<lambda>s. case elements s selector of
                  None \<Rightarrow> (Inl (Error [Str ''Timeout exceeded while waiting for '', Str selector]), s)
                | Some el \<Rightarrow> (Inr (), emit (Click selector) s))"

definition keyboard_type :: "char \<Rightarrow> (page, unit) prog" where
  "keyboard_type c = call (\<lambda>s. (Inr (), emit (KeyboardType c) s))"

definition math_random :: "(page, real) prog" where
  "math_random s = (Inr (random s (drawn s)), s\<lparr>drawn := Suc (drawn s)\<rparr>)"

definition add_style :: "string \<Rightarrow> style_sheet \<Rightarrow> page \<Rightarrow> page" where
  "add_style ident sheet s =
     (if ident \<in> set (styleIds s) then s
      else emit (StyleAdded sheet) (s\<lparr>styleIds := styleIds s @ [ident]\<rparr>))"

definition ripple_script :: "string \<Rightarrow> (page, unit) prog" where
  "ripple_script sel s =
     (case elements s sel of
        None \<Rightarrow> (Inr (), s)
      | Some element \<Rightarrow>
          (let rect = clientRect element;
               ripple = \<lparr>box_x = box_x rect + box_width rect / 2,
                         box_y = box_y rect + box_height rect / 2,
                         box_width = 10, box_height = 10\<rparr>
           in (Inr (), emit (Overlay Ripple ripple 400)
                         (add_style ''__demo-ripple-style'' RippleKeyframes s))))"

definition clickAnimated :: "string \<Rightarrow> ClickOptions option \<Rightarrow> (page, unit) prog" where
  "clickAnimated selector options =
     (let hoverDuration = nullish (chain options click_hoverDuration) 200;
          moveDuration = nullish (chain options click_moveDuration) 400
      in try_catch
           (and_then (moveTo selector
                        (Some \<lparr>move_duration = Some moveDuration, move_steps = None\<rparr>)) (\<lambda>_.
            and_then (waitForTimeout hoverDuration) (\<lambda>_.
            and_then (evaluate (ripple_script selector)) (\<lambda>_.
            page_click selector))))
           (\<lambda>_. logger_warn (''Failed to click element: '' @ selector)))"

text \<open>\<open>for (const char of text)\<close>: one round per character, each with its own call of
  \<open>Math.random()\<close>.\<close>

definition actualDelay :: "real \<Rightarrow> real \<Rightarrow> real \<Rightarrow> real" where
  "actualDelay delay variation r = delay + of_int \<lfloor>r * variation * 2\<rfloor> - variation"

primrec type_chars :: "real \<Rightarrow> real \<Rightarrow> string \<Rightarrow> (page, unit) prog" where
  "type_chars delay variation [] = ret ()"
| "type_chars delay variation (char # rest) =
     and_then (keyboard_type char) (\<lambda>_.
     and_then math_random (\<lambda>r.
     and_then (waitForTimeout (max 10 (actualDelay delay variation r))) (\<lambda>_.
     type_chars delay variation rest)))"

definition typeAnimated :: "string \<Rightarrow> string \<Rightarrow> TypeOptions option \<Rightarrow> (page, unit) prog" where
  "typeAnimated selector text options =
     (let delay = nullish (chain options type_delay) 50;
          variation = nullish (chain options type_variation) 20
      in try_catch
           (and_then (page_click selector) (\<lambda>_.
            and_then (waitForTimeout 100) (\<lambda>_.
            type_chars delay variation text)))
           (\<lambda>_. logger_warn (''Failed to type in element: '' @ selector)))"

definition zoom_script :: "string \<Rightarrow> real \<Rightarrow> real \<Rightarrow> (page, unit) prog" where
  "zoom_script selector scale duration s =
     (case elements s selector of
        None \<Rightarrow> (Inr (), s)
      | Some element \<Rightarrow>
          (let rect = clientRect element;
               overlay = \<lparr>box_x = box_x rect - 4, box_y = box_y rect - 4,
                          box_width = box_width rect + 8, box_height = box_height rect + 8\<rparr>
           in (Inr (), emit (Overlay Zoom overlay duration)
                         (add_style ''__demo-zoom-style'' (ZoomKeyframes scale) s))))"

definition zoomHighlight :: "string \<Rightarrow> ZoomOptions option \<Rightarrow> (page, unit) prog" where
  "zoomHighlight selector options =
     (let scale = nullish (chain options zoom_scale) (105 / 100);
          duration = nullish (chain options zoom_duration) 600
      in try_catch
           (and_then (evaluate (zoom_script selector scale duration)) (\<lambda>_.
            waitForTimeout duration))
           (\<lambda>_. logger_warn (''Failed to zoom highlight element: '' @ selector)))"



section \<open>Reading the trace\<close>

text \<open>The events a call added to the trace.\<close>

definition new_events :: "page \<Rightarrow> page \<Rightarrow> event list" where
  "new_events s s' = drop (length (events s)) (events s')"

primrec mouse_positions :: "event list \<Rightarrow> (real \<times> real) list" where
  "mouse_positions [] = []"
| "mouse_positions (e # es) =
     (case e of MouseMove x y \<Rightarrow> (x, y) # mouse_positions es | _ \<Rightarrow> mouse_positions es)"

definition is_warning :: "event \<Rightarrow> bool" where
  "is_warning e = (case e of ConsoleWarn m \<Rightarrow> True | LoggerWarn m \<Rightarrow> True | _ \<Rightarrow> False)"

definition is_overlay :: "event \<Rightarrow> bool" where
  "is_overlay e = (case e of Overlay k b d \<Rightarrow> True | _ \<Rightarrow> False)"

text \<open>The target of \<open>moveTo\<close>: \<open>box.x + box.width / 2\<close> and \<open>box.y + box.height / 2\<close>, in
  doubles.\<close>

definition center :: "box \<Rightarrow> real \<times> real" where
  "center b = (dadd (box_x b) (ddiv (box_width b) 2), dadd (box_y b) (ddiv (box_height b) 2))"

text \<open>One round of the loop of \<open>moveTo\<close> as it shows in the trace: the cursor element
  is restyled when the page has one, the pointer moves, the helper waits.\<close>

definition step_events :: "bool \<Rightarrow> real \<times> real \<Rightarrow> real \<Rightarrow> event list" where
  "step_events hasCursor pos stepDelay =
     (if hasCursor then [CursorStyle (fst pos) (snd pos)] else [])
       @ [MouseMove (fst pos) (snd pos), Timeout stepDelay]"

text \<open>One round of the loop of \<open>typeAnimated\<close>: the character, then the wait computed
  from the draw \<open>r\<close> of that round.\<close>

definition char_events :: "real \<Rightarrow> real \<Rightarrow> char \<times> real \<Rightarrow> event list" where
  "char_events delay variation cr =
     [KeyboardType (fst cr), Timeout (max 10 (actualDelay delay variation (snd cr)))]"

text \<open>The draws the next \<open>n\<close> calls of \<open>Math.random()\<close> return.\<close>

definition draws :: "page \<Rightarrow> nat \<Rightarrow> real list" where
  "draws s n = map (\<lambda>k. random s (drawn s + k)) [0..<n]"


text \<open>A program only appends to the trace, and every event it appends satisfies \<open>P\<close>.\<close>

definition appends :: "(event \<Rightarrow> bool) \<Rightarrow> (page, 'a) prog \<Rightarrow> bool" where
  "appends P m = (\<forall>s. \<exists>new. events (snd (m s)) = events s @ new \<and> (\<forall>e \<in> set new. P e))"

definition long_wait :: "event \<Rightarrow> bool" where
  "long_wait e = (case e of Timeout ms \<Rightarrow> 10 \<le> ms | _ \<Rightarrow> True)"

text \<open>The wait Claim C6 states for a character: the delay plus a value in
  [-variation, +variation].\<close>

definition in_jitter_range :: "real \<Rightarrow> real \<Rightarrow> real \<Rightarrow> bool" where
  "in_jitter_range delay variation ms = (delay - variation \<le> ms \<and> ms \<le> delay + variation)"

section \<open>Scenarios\<close>

definition blank_page :: page where
  "blank_page =
     \<lparr>fault = (\<lambda>n. None), tick = 0, random = (\<lambda>n. 0), drawn = 0, css_px = (\<lambda>x. x),
      elements = (\<lambda>selector. None), scrollX = 0, scrollY = 0, cursor = None,
      styleIds = [], events = []\<rparr>"

definition btn_box :: box where
  "btn_box = \<lparr>box_x = 250, box_y = 180, box_width = 100, box_height = 40\<rparr>"

definition btn :: element where
  "btn = \<lparr>boundingBox = Some btn_box, clientRect = btn_box\<rparr>"

text \<open>A page with one element, matched by \<open>#btn\<close> and by \<open>#input\<close>, centred at (300, 200),
  the cursor at (100, 100), and \<open>Math.random()\<close> returning 0, then 3/4.\<close>

definition example_page :: page where
  "example_page =
     blank_page
       \<lparr>random := (\<lambda>n. if n = 0 then 0 else 3 / 4),
        elements := (\<lambda>selector. if selector = ''#btn'' \<or> selector = ''#input'' then Some btn else None),
        cursor := Some \<lparr>style_left = Some 100, style_top = Some 100\<rparr>\<rparr>"

text \<open>The same page right after \<open>initFakeCursor\<close>: the cursor element sits at (0, 0).\<close>

definition fresh_page :: page where
  "fresh_page = example_page\<lparr>cursor := Some \<lparr>style_left = Some 0, style_top = Some 0\<rparr>\<rparr>"

text \<open>A page without a cursor element whose \<open>#btn\<close> is 10 wide and starts at the double
  nearest to 5.7, so that its centre is the double nearest to 10.7.\<close>

definition offset_box :: box where
  "offset_box =
     \<lparr>box_x = 6417629469002957 / 2 ^ 50, box_y = 180, box_width = 10, box_height = 40\<rparr>"

definition offset_page :: page where
  "offset_page =
     blank_page
       \<lparr>elements := (\<lambda>selector. if selector = ''#btn''
                                then Some \<lparr>boundingBox = Some offset_box, clientRect = offset_box\<rparr>
                                else None)\<rparr>"

section \<open>The recorder\<close>

record VideoSettings =
  video_width :: "real option"
  video_height :: "real option"

text \<open>The context a demo script receives: the helpers, bound to the page of the
  recording. The page itself is the state the script runs on.\<close>

record DemoContext =
  ctx_wait :: "real \<Rightarrow> (page, unit) prog"
  ctx_highlight :: "string \<Rightarrow> real option \<Rightarrow> (page, unit) prog"
  ctx_hideDevTools :: "(page, unit) prog"
  ctx_typeAnimated :: "string \<Rightarrow> string \<Rightarrow> TypeOptions option \<Rightarrow> (page, unit) prog"
  ctx_moveTo :: "string \<Rightarrow> MoveOptions option \<Rightarrow> (page, unit) prog"
  ctx_clickAnimated :: "string \<Rightarrow> ClickOptions option \<Rightarrow> (page, unit) prog"
  ctx_zoomHighlight :: "string \<Rightarrow> ZoomOptions option \<Rightarrow> (page, unit) prog"

record DemoDefinition =
  demo_id :: string
  demo_name :: string
  demo_url :: string
  demo_video :: "VideoSettings option"
  demo_run :: "DemoContext \<Rightarrow> (page, unit) prog"


datatype spawn_result = Closed int string | SpawnError string string

text \<open>
  The trace of system calls. A launched browser and a created browser context are known by
  a handle; \<open>Launch\<close> and \<open>NewContext\<close> record the handle they return, \<open>CloseContext\<close> and
  \<open>CloseBrowser\<close> the handle whose \<open>close()\<close> is called, \<open>ContextClosed\<close> and
  \<open>BrowserClosed\<close> that the call returned without throwing. \<open>Cleanup\<close> marks the entry of
  the recorder's \<open>cleanup\<close> method.
\<close>

datatype syscall =
    Mkdir string
  | Launch bool nat
  | NewContext real real string nat
  | NewPage
  | CloseContext nat
  | ContextClosed nat
  | CloseBrowser nat
  | BrowserClosed nat
  | Readdir string
  | Spawn string "part list"
  | LoggerInfo message
  | LoggerError message
  | Cleanup

datatype printed =
    SpinnerStart message
  | SpinnerSucceed message
  | SpinnerWarn message
  | SpinnerFail message
  | ConsoleLog message
  | Exit nat

text \<open>
  The process around the page. \<open>browser\<close>, \<open>browserContext\<close> (the field \<open>context\<close>) and
  \<open>headed\<close> are the fields of the \<open>PlaywrightRecorder\<close>.
  The environment: the \<open>n\<close>-th system call throws when \<open>io_fault n\<close>
  is an error; \<open>clock\<close> is what \<open>Date.now()\<close> returns; \<open>ffmpeg\<close> is how a spawned
  \<open>ffmpeg\<close> process ends (its exit code and error output, or the code and the message of
  the spawn error); \<open>loader\<close> is \<open>loadDemo\<close>, whose source is not among the files; \<open>directory\<close> is
  what \<open>fs.readdir\<close> lists once the recording is written. \<open>calls\<close> is the trace of system
  calls and log lines, \<open>out\<close> what the command prints. A demo script runs on \<open>the_page\<close>
  alone.
\<close>

record world =
  io_fault :: "nat \<Rightarrow> error option"
  io_tick :: nat
  clock :: "nat \<Rightarrow> real"
  ffmpeg :: "nat \<Rightarrow> spawn_result"
  loader :: "string \<Rightarrow> error + DemoDefinition"
  directory :: "string \<Rightarrow> string list"
  browser :: "nat option"
  browserContext :: "nat option"
  headed :: "bool option"
  the_page :: page
  calls :: "syscall list"
  out :: "printed list"



















text \<open>
  \<open>path.join\<close> of two segments, as Node computes it on POSIX: the non-empty segments are
  joined by \<open>/\<close> and the result is normalised (\<open>normalizeString\<close>: empty and \<open>.\<close> segments are
  dropped, \<open>..\<close> removes the segment before it, or is kept when the path is relative and there
  is none; a leading and a trailing \<open>/\<close> are kept). \<open>res\<close> holds the segments kept so far, the
  last one first.
\<close>

primrec split_slash :: "string \<Rightarrow> string list" where
  "split_slash [] = [[]]"
| "split_slash (c # cs) =
     (if c = CHR ''/'' then [] # split_slash cs
      else (case split_slash cs of [] \<Rightarrow> [[c]] | seg # segs \<Rightarrow> (c # seg) # segs))"











section \<open>The transcoder and the record command\<close>















text \<open>
  What \<open>record\<close> and its parts leave alone and what they promise: the printed output, the
  transcoder, the directory listing are untouched, the trace of calls only grows, and a
  returned value satisfies \<open>Q\<close> (which may refer to the directory listing).
\<close>

definition steady :: "('a \<Rightarrow> (string \<Rightarrow> string list) \<Rightarrow> bool) \<Rightarrow> (world, 'a) prog \<Rightarrow> bool" where
  "steady Q m =
     (\<forall>w r w'. m w = (r, w') \<longrightarrow>
        out w' = out w \<and> ffmpeg w' = ffmpeg w \<and> directory w' = directory w
      \<and> prefix (calls w) (calls w')
      \<and> (\<forall>a. r = Inr a \<longrightarrow> Q a (directory w)))"













section \<open>Scenarios of a recording\<close>






section \<open>Doubles: what rounding leaves alone\<close>

lemma binade_bounds: "0 < x \<Longrightarrow> 2 powi binade x \<le> x \<and> x < 2 powi (binade x + 1)"
proof (induction x rule: binade.induct)
  case (1 x)
  show ?case
  proof (cases "2 \<le> x")
    case True
    then have b: "binade x = binade (x / 2) + 1" using "1.prems" by (simp add: binade.simps[of x])
    from "1.IH"(1) True "1.prems"
    have ih: "2 powi binade (x / 2) \<le> x / 2 \<and> x / 2 < 2 powi (binade (x / 2) + 1)" by simp
    show ?thesis unfolding b using ih by (simp add: power_int_add)
  next
    case False
    show ?thesis
    proof (cases "x < 1")
      case True
      then have b: "binade x = binade (x * 2) - 1" using False "1.prems" by (simp add: binade.simps[of x])
      from "1.IH"(2) True False "1.prems"
      have ih: "2 powi binade (x * 2) \<le> x * 2 \<and> x * 2 < 2 powi (binade (x * 2) + 1)" by simp
      show ?thesis unfolding b using ih by (simp add: power_int_add power_int_diff)
    next
      case f: False
      then have "binade x = 0" using False "1.prems" by (simp add: binade.simps[of x])
      then show ?thesis using False f by simp
    qed
  qed
qed

lemma powi_mono: "a \<le> b \<Longrightarrow> (2::real) powi a \<le> 2 powi b"
  by (rule power_int_increasing) simp_all

lemma binade_eq:
  assumes "2 powi e \<le> x" "x < 2 powi (e + 1)"
  shows "binade x = e"
proof -
  have pos: "0 < x" using assms(1) by (smt (verit) zero_less_power_int)
  from binade_bounds[OF pos] have b: "2 powi binade x \<le> x" "x < 2 powi (binade x + 1)" by simp_all
  have "\<not> binade x + 1 \<le> e"
  proof
    assume "binade x + 1 \<le> e"
    then have "(2::real) powi (binade x + 1) \<le> 2 powi e" by (rule powi_mono)
    with b assms show False by linarith
  qed
  moreover have "\<not> e + 1 \<le> binade x"
  proof
    assume "e + 1 \<le> binade x"
    then have "(2::real) powi (e + 1) \<le> 2 powi binade x" by (rule powi_mono)
    with b assms show False by linarith
  qed
  ultimately show ?thesis by linarith
qed

lemma round_even_int [simp]: "round_even (of_int n) = n"
  by (simp add: round_even_def)

lemma round_even_ge: "of_int n \<le> x \<Longrightarrow> n \<le> round_even x"
proof -
  assume "of_int n \<le> x"
  then have "n \<le> \<lfloor>x\<rfloor>" by (simp add: le_floor_iff)
  then show ?thesis by (auto simp add: round_even_def Let_def)
qed

lemma round_even_le: "x \<le> of_int n \<Longrightarrow> round_even x \<le> n"
proof (cases "x = of_int n")
  case True
  then show ?thesis by simp
next
  case False
  assume "x \<le> of_int n"
  with False have "x < of_int n" by simp
  then have "\<lfloor>x\<rfloor> < n" by (simp add: floor_less_iff)
  then show ?thesis by (auto simp add: round_even_def Let_def)
qed

lemma fl_minus: "fl (- x) = - fl x"
proof (cases "x = 0")
  case True
  then show ?thesis by (simp add: fl_def)
next
  case False
  have r: "round_even (- y) = - round_even y" for y
  proof (cases "y = of_int \<lfloor>y\<rfloor>")
    case True
    then obtain n where "y = of_int n" by blast
    then show ?thesis by (simp flip: of_int_minus)
  next
    case f: False
    then have c: "\<lfloor>- y\<rfloor> = - \<lfloor>y\<rfloor> - 1"
      by (metis ceiling_altdef ceiling_def diff_minus_eq_add floor_minus minus_diff_eq of_int_minus Ints_of_int add_diff_cancel uminus_add_conv_diff)
    have "y - of_int \<lfloor>y\<rfloor> < 1" "0 \<le> y - of_int \<lfloor>y\<rfloor>" by linarith+
    then show ?thesis using f
      by (auto simp add: round_even_def Let_def c)
  qed
  show ?thesis using False by (simp add: fl_def Let_def r)
qed

text \<open>An integer of fewer than 54 bits times a power of two is a double.\<close>

lemma fl_exact_pos:
  assumes m: "0 < m" "m < 2 ^ 53"
  shows "fl (of_int m * 2 powi k) = of_int m * 2 powi k"
proof -
  have mpos: "(0::real) < of_int m" using m by simp
  have m1: "(2::real) powi 0 \<le> of_int m" using m by simp
  define b where "b = binade (of_int m)"
  from binade_bounds[OF mpos]
  have bb: "2 powi b \<le> (of_int m :: real)" "(of_int m :: real) < 2 powi (b + 1)"
    by (simp_all add: b_def)
  have b0: "0 \<le> b"
  proof (rule ccontr)
    assume "\<not> 0 \<le> b"
    then have "b + 1 \<le> 0" by simp
    then have "(2::real) powi (b + 1) \<le> 2 powi 0" by (rule powi_mono)
    with bb m1 show False by linarith
  qed
  have b52: "b \<le> 52"
  proof (rule ccontr)
    assume "\<not> b \<le> 52"
    then have "53 \<le> b" by simp
    then have "(2::real) powi 53 \<le> 2 powi b" by (rule powi_mono)
    moreover have "(of_int m :: real) < 2 powi 53"
      using m(2) by (metis of_int_less_iff of_int_numeral of_int_power power_int_numeral numeral_eq_Suc
          of_nat_numeral power_int_of_nat)
    ultimately show False using bb by linarith
  qed
  let ?x = "of_int m * 2 powi k :: real"
  have xpos: "0 < ?x" using mpos by simp
  have "2 powi (b + k) \<le> ?x" "?x < 2 powi (b + k + 1)"
    using bb by (simp_all add: power_int_add add.commute[of _ k] add.assoc)
  then have e: "binade ?x = b + k" by (rule binade_eq)
  have sc: "?x * 2 powi (52 - (b + k)) = of_int (m * 2 ^ nat (52 - b))"
  proof -
    have "?x * 2 powi (52 - (b + k)) = of_int m * (2 powi k * 2 powi (52 - (b + k)))" by simp
    also have "2 powi k * 2 powi (52 - (b + k)) = (2::real) powi (52 - b)"
      by (simp flip: power_int_add)
    also have "(2::real) powi (52 - b) = 2 ^ nat (52 - b)"
      using b52 by (simp add: power_int_def)
    finally show ?thesis by simp
  qed
  have "fl ?x = of_int (m * 2 ^ nat (52 - b)) * 2 powi (b + k - 52)"
    using xpos by (simp add: fl_def Let_def e sc del: of_int_mult of_int_power)
  also have "\<dots> = of_int m * ((2::real) powi (52 - b) * 2 powi (b + k - 52))"
    using b52 by (simp add: power_int_def)
  also have "(2::real) powi (52 - b) * 2 powi (b + k - 52) = 2 powi k"
    by (simp flip: power_int_add)
  finally show ?thesis .
qed

lemma fl_exact:
  assumes "\<bar>m\<bar> < 2 ^ 53"
  shows "fl (of_int m * 2 powi k) = of_int m * 2 powi k"
proof (cases "m = 0" "0 < m" rule: case_split[case_product case_split])
  case True_True
  then show ?thesis by simp
next
  case True_False
  then show ?thesis by (simp add: fl_def)
next
  case False_True
  then show ?thesis using assms by (intro fl_exact_pos) simp_all
next
  case False_False
  then have "0 < - m" "- m < 2 ^ 53" using assms by simp_all
  from fl_exact_pos[OF this, of k] have "fl (- (of_int m * 2 powi k)) = - (of_int m * 2 powi k)"
    by simp
  then show ?thesis by (simp add: fl_minus)
qed

lemma fl_of_int: "\<bar>m\<bar> < 2 ^ 53 \<Longrightarrow> fl (of_int m) = of_int m"
  using fl_exact[of m 0] by simp

lemma fl_numeral [simp]: "numeral n < (2 ^ 53 :: int) \<Longrightarrow> fl (numeral n) = numeral n"
  using fl_of_int[of "numeral n"] by simp

lemma fl_zero [simp]: "fl 0 = 0"
  by (simp add: fl_def)

lemma fl_one [simp]: "fl 1 = 1"
  using fl_of_int[of 1] by simp

text \<open>Rounding gives a double, so rounding twice is rounding once.\<close>

lemma fl_fl_pos:
  assumes pos: "0 < x"
  shows "fl (fl x) = fl x"
proof -
  define e where "e = binade x"
  from binade_bounds[OF pos] have b: "2 powi e \<le> x" "x < 2 powi (e + 1)" by (simp_all add: e_def)
  let ?s = "x * 2 powi (52 - e)"
  have p: "(0::real) < 2 powi (52 - e)" by simp
  have "2 powi e * 2 powi (52 - e) \<le> ?s" using b(1) p by (simp only: mult_le_cancel_right_pos)
  then have lo: "of_int (2 ^ 52) \<le> ?s" by (simp flip: power_int_add)
  have "?s < 2 powi (e + 1) * 2 powi (52 - e)" using b(2) p by (simp only: mult_less_cancel_right_pos)
  then have hi: "?s \<le> of_int (2 ^ 53)" by (simp flip: power_int_add)
  define n where "n = round_even ?s"
  have n1: "2 ^ 52 \<le> n" unfolding n_def using lo by (rule round_even_ge)
  have n2: "n \<le> 2 ^ 53" unfolding n_def using hi by (rule round_even_le)
  have f: "fl x = of_int n * 2 powi (e - 52)"
    using pos by (simp add: fl_def Let_def e_def n_def)
  show ?thesis
  proof (cases "n = 2 ^ 53")
    case True
    have "fl x = of_int 1 * 2 powi (e + 1)"
      unfolding f True by (simp add: power_int_add power_int_diff)
    moreover have "fl (of_int 1 * 2 powi (e + 1)) = of_int 1 * 2 powi (e + 1)"
      by (rule fl_exact) simp
    ultimately show ?thesis by simp
  next
    case False
    then have "\<bar>n\<bar> < 2 ^ 53" using n1 n2 by simp
    then show ?thesis unfolding f by (rule fl_exact)
  qed
qed

lemma fl_fl [simp]: "fl (fl x) = fl x"
proof (cases "x = 0" "0 < x" rule: case_split[case_product case_split])
  case False_False
  then have "0 < - x" by simp
  from fl_fl_pos[OF this] show ?thesis by (simp add: fl_minus)
qed (simp_all add: fl_fl_pos)

text \<open>Rounding a number whose binade is known.\<close>

lemma fl_eval:
  assumes "x \<noteq> 0" "2 powi e \<le> \<bar>x\<bar>" "\<bar>x\<bar> < 2 powi (e + 1)"
  shows "fl x = of_int (round_even (x * 2 powi (52 - e))) * 2 powi (e - 52)"
  using assms by (simp add: fl_def Let_def binade_eq[of e "\<bar>x\<bar>"])

section \<open>Cursor movement: the trace of a successful call\<close>

lemma call_ok: "fault s = (\<lambda>_. None) \<Longrightarrow> call f s = f (s\<lparr>tick := Suc (tick s)\<rparr>)"
  by (simp add: call_def)

lemma step_ok:
  assumes "fault s = (\<lambda>_. None)"
  shows "\<exists>s'. and_then (updateCursorPosition x y) (\<lambda>_.
              and_then (mouse_move x y) (\<lambda>_.
              waitForTimeout d)) s = (Inr (), s')
        \<and> fault s' = fault s \<and> css_px s' = css_px s
        \<and> events s' = events s @ step_events (cursor s \<noteq> None) (x, y) d
        \<and> cursor s' = (if cursor s = None then None
                        else Some \<lparr>style_left = Some (css_px s x), style_top = Some (css_px s y)\<rparr>)"
  using assms
  by (cases "cursor s")
     (simp_all add: and_then_def updateCursorPosition_def evaluate_def mouse_move_def
        waitForTimeout_def call_ok emit_def step_events_def)

lemma move_loop_ok:
  "fault s = (\<lambda>_. None) \<Longrightarrow>
   \<exists>s'. move_loop c t d n i s = (Inr (), s')
      \<and> fault s' = fault s \<and> css_px s' = css_px s
      \<and> events s' = events s @ concat (map (\<lambda>k. step_events (cursor s \<noteq> None) (step_position c t n k) d) [i..n])
      \<and> cursor s' = (if i \<le> n \<and> cursor s \<noteq> None
                      then Some \<lparr>style_left = Some (css_px s (fst (step_position c t n n))),
                                 style_top = Some (css_px s (snd (step_position c t n n)))\<rparr>
                      else cursor s)"
proof (induction c t d n i s rule: move_loop.induct)
  case (1 c t d n i s)
  show ?case
  proof (cases "i \<le> n")
    case False
    then show ?thesis by (simp add: move_loop.simps[of c t d n i s])
  next
    case True
    obtain x y where xy: "step_position c t n i = (x, y)" by (cases "step_position c t n i")
    from step_ok[OF "1.prems", of x y d] obtain s1 where
      s1: "and_then (updateCursorPosition x y) (\<lambda>_.
              and_then (mouse_move x y) (\<lambda>_.
              waitForTimeout d)) s = (Inr (), s1)"
      and f1: "fault s1 = fault s" and p1: "css_px s1 = css_px s"
      and e1: "events s1 = events s @ step_events (cursor s \<noteq> None) (x, y) d"
      and c1: "cursor s1 = (if cursor s = None then None
                            else Some \<lparr>style_left = Some (css_px s x), style_top = Some (css_px s y)\<rparr>)"
      by blast
    have f1': "fault s1 = (\<lambda>_. None)" using f1 "1.prems" by simp
    from "1.IH"[OF True xy[symmetric] refl s1[symmetric] refl f1'] obtain s2 where
      s2: "move_loop c t d n (i + 1) s1 = (Inr (), s2)"
      and f2: "fault s2 = fault s1" and p2: "css_px s2 = css_px s1"
      and e2: "events s2 = events s1 @ concat (map (\<lambda>k. step_events (cursor s1 \<noteq> None) (step_position c t n k) d) [i + 1..n])"
      and c2: "cursor s2 = (if i + 1 \<le> n \<and> cursor s1 \<noteq> None
                      then Some \<lparr>style_left = Some (css_px s1 (fst (step_position c t n n))),
                                 style_top = Some (css_px s1 (snd (step_position c t n n)))\<rparr>
                      else cursor s1)"
      by blast
    have ml: "move_loop c t d n i s = (Inr (), s2)"
      using True xy s1 s2 by (simp add: move_loop.simps[of c t d n i s])
    have cs: "(cursor s1 \<noteq> None) = (cursor s \<noteq> None)" using c1 by simp
    have up: "[i..n] = i # [i + 1..n]" using True by (simp add: upto_rec1)
    have "i = n \<or> i + 1 \<le> n" using True by arith
    then have cur: "cursor s2 = (if i \<le> n \<and> cursor s \<noteq> None
                      then Some \<lparr>style_left = Some (css_px s (fst (step_position c t n n))),
                                 style_top = Some (css_px s (snd (step_position c t n n)))\<rparr>
                      else cursor s)"
      using c2 c1 p1 True xy by auto
    show ?thesis using ml f2 f1 p2 p1 e2 e1 cs up xy cur by simp
  qed
qed

text \<open>\<open>moveTo\<close> on a page whose calls all succeed, with the element found and visible.\<close>

lemma moveTo_trace:
  assumes nf: "fault s = (\<lambda>_. None)"
    and el: "elements s selector = Some el"
    and bb: "boundingBox el = Some b"
  shows "\<exists>s'. moveTo selector options s = (Inr (), s')
      \<and> events s' = events s @ concat (map (\<lambda>i. step_events (cursor s \<noteq> None)
            (step_position (cursor_position s) (center b) (nullish (chain options move_steps) 20) i)
            (nullish (chain options move_duration) 500 / of_int (nullish (chain options move_steps) 20)))
            [1..nullish (chain options move_steps) 20])
      \<and> cursor s' = (if 1 \<le> nullish (chain options move_steps) 20 \<and> cursor s \<noteq> None
            then Some \<lparr>style_left = Some (css_px s (fst (step_position (cursor_position s) (center b) (nullish (chain options move_steps) 20) (nullish (chain options move_steps) 20)))),
                       style_top = Some (css_px s (snd (step_position (cursor_position s) (center b) (nullish (chain options move_steps) 20) (nullish (chain options move_steps) 20))))\<rparr>
            else cursor s)"
proof -
  let ?n = "nullish (chain options move_steps) 20"
  let ?d = "nullish (chain options move_duration) 500 / of_int ?n"
  let ?s3 = "s\<lparr>tick := Suc (Suc (Suc (tick s)))\<rparr>"
  have f3: "fault ?s3 = (\<lambda>_. None)" using nf by simp
  from move_loop_ok[OF f3, of "cursor_position s" "center b" ?d ?n 1]
  obtain s' where
    ml: "move_loop (cursor_position s) (center b) ?d ?n 1 ?s3 = (Inr (), s')"
    and ev: "events s' = events ?s3 @ concat (map (\<lambda>k. step_events (cursor ?s3 \<noteq> None) (step_position (cursor_position s) (center b) ?n k) ?d) [1..?n])"
    and cu: "cursor s' = (if 1 \<le> ?n \<and> cursor ?s3 \<noteq> None
                      then Some \<lparr>style_left = Some (css_px ?s3 (fst (step_position (cursor_position s) (center b) ?n ?n))),
                                 style_top = Some (css_px ?s3 (snd (step_position (cursor_position s) (center b) ?n ?n)))\<rparr>
                      else cursor ?s3)"
    by blast
  have cp: "cursor_position (s\<lparr>tick := k\<rparr>) = cursor_position s" for k
    by (simp add: cursor_position_def)
  have "moveTo selector options s = (Inr (), s')"
    using nf el bb ml
    by (simp add: moveTo_def try_catch_def and_then_def page_query_def element_boundingBox_def
          evaluate_def call_ok currentPos_script_def center_def cp Let_def)
  then show ?thesis using ev cu by auto
qed

lemma new_events_append: "events s' = events s @ new \<Longrightarrow> new_events s s' = new"
  by (simp add: new_events_def)

lemma mouse_positions_append:
  "mouse_positions (xs @ ys) = mouse_positions xs @ mouse_positions ys"
  by (induction xs) (simp_all split: event.splits)

lemma mouse_positions_steps:
  "mouse_positions (concat (map (\<lambda>k. step_events h (f k) d) ks)) = map f ks"
  by (induction ks) (simp_all add: mouse_positions_append step_events_def)

lemma eased_last: "1 \<le> n \<Longrightarrow> eased n n = 1"
  by (simp add: eased_def)

text \<open>The last round: the eased value is 1, and the product by 1 is exact.\<close>

lemma step_position_last:
  "1 \<le> n \<Longrightarrow>
   step_position c t n n
     = (dadd (fst c) (dsub (fst t) (fst c)), dadd (snd c) (dsub (snd t) (snd c)))"
  by (simp add: step_position_def eased_last dmul_def dsub_def)

lemma moveTo_positions:
  assumes nf: "fault s = (\<lambda>_. None)"
    and el: "elements s selector = Some el"
    and bb: "boundingBox el = Some b"
  shows "mouse_positions (new_events s (snd (moveTo selector options s))) =
     map (step_position (cursor_position s) (center b) (nullish (chain options move_steps) 20))
       [1..nullish (chain options move_steps) 20]"
proof -
  from moveTo_trace[OF nf el bb, of options] obtain s' where
    "moveTo selector options s = (Inr (), s')"
    "events s' = events s @ concat (map (\<lambda>i. step_events (cursor s \<noteq> None)
            (step_position (cursor_position s) (center b) (nullish (chain options move_steps) 20) i)
            (nullish (chain options move_duration) 500 / of_int (nullish (chain options move_steps) 20)))
            [1..nullish (chain options move_steps) 20])"
    by blast
  then show ?thesis
    by (simp add: new_events_append mouse_positions_steps)
qed

lemma moveTo_last_position:
  assumes nf: "fault s = (\<lambda>_. None)"
    and el: "elements s selector = Some el"
    and bb: "boundingBox el = Some b"
    and st: "1 \<le> nullish (chain options move_steps) 20"
  shows "mouse_positions (new_events s (snd (moveTo selector options s))) \<noteq> []
       \<and> last (mouse_positions (new_events s (snd (moveTo selector options s))))
           = (dadd (fst (cursor_position s)) (dsub (fst (center b)) (fst (cursor_position s))),
              dadd (snd (cursor_position s)) (dsub (snd (center b)) (snd (cursor_position s))))"
proof -
  let ?n = "nullish (chain options move_steps) 20"
  have up: "[1..?n] = [1..?n - 1] @ [?n]" using st by (rule upto_rec2)
  have p: "mouse_positions (new_events s (snd (moveTo selector options s))) =
     map (step_position (cursor_position s) (center b) ?n) [1..?n]"
    by (rule moveTo_positions[OF nf el bb])
  have l: "last (map (step_position (cursor_position s) (center b) ?n) [1..?n])
      = step_position (cursor_position s) (center b) ?n ?n"
    by (subst up) simp
  have ne: "map (step_position (cursor_position s) (center b) ?n) [1..?n] \<noteq> []"
    using st by simp
  show ?thesis using p l ne by (simp add: step_position_last[OF st])
qed

lemma center_is_double: "fl (fst (center b)) = fst (center b)" "fl (snd (center b)) = snd (center b)"
  by (simp_all add: center_def dadd_def)

text \<open>
  Claim C2, as amended. For every number of steps of at least 1, any duration, any start
  position and any target, a \<open>moveTo\<close> that finds its element reaches progress 1 and eased
  value 1 at its last step, and the last position it emits is, on each axis, the start
  plus the difference of centre and start in double arithmetic: the difference is
  rounded, then the sum. That position is exactly the centre of the element on every
  axis where the difference of centre and start is itself a double (as from 100 to 300);
  where it is not, the rounding of the difference may leave the position beside the
  centre. The cursor element, when the page has one, is restyled to the same position.
\<close>

theorem moveTo_final_position:
  assumes nf: "fault s = (\<lambda>_. None)"
    and el: "elements s selector = Some el"
    and bb: "boundingBox el = Some b"
    and st: "1 \<le> nullish (chain options move_steps) 20"
    and la: "final = last (mouse_positions (new_events s (snd (moveTo selector options s))))"
  shows "mouse_positions (new_events s (snd (moveTo selector options s))) \<noteq> []
       \<and> eased (nullish (chain options move_steps) 20) (nullish (chain options move_steps) 20) = 1
       \<and> final = (dadd (fst (cursor_position s)) (dsub (fst (center b)) (fst (cursor_position s))),
                  dadd (snd (cursor_position s)) (dsub (snd (center b)) (snd (cursor_position s))))
       \<and> (fl (fst (center b) - fst (cursor_position s)) = fst (center b) - fst (cursor_position s)
            \<longrightarrow> fst final = fst (center b))
       \<and> (fl (snd (center b) - snd (cursor_position s)) = snd (center b) - snd (cursor_position s)
            \<longrightarrow> snd final = snd (center b))
       \<and> (cursor s \<noteq> None \<longrightarrow>
            cursor (snd (moveTo selector options s))
              = Some \<lparr>style_left = Some (css_px s (fst final)),
                      style_top = Some (css_px s (snd final))\<rparr>)"
proof -
  note lp = moveTo_last_position[OF nf el bb st]
  have f: "final = (dadd (fst (cursor_position s)) (dsub (fst (center b)) (fst (cursor_position s))),
                  dadd (snd (cursor_position s)) (dsub (snd (center b)) (snd (cursor_position s))))"
    using lp la by simp
  have x: "fl (fst (center b) - fst (cursor_position s)) = fst (center b) - fst (cursor_position s)
            \<Longrightarrow> fst final = fst (center b)"
    by (simp add: f dadd_def dsub_def center_is_double)
  have y: "fl (snd (center b) - snd (cursor_position s)) = snd (center b) - snd (cursor_position s)
            \<Longrightarrow> snd final = snd (center b)"
    by (simp add: f dadd_def dsub_def center_is_double)
  from moveTo_trace[OF nf el bb, of options] st
  have c: "cursor s \<noteq> None \<longrightarrow>
            cursor (snd (moveTo selector options s))
              = Some \<lparr>style_left = Some (css_px s (fst final)),
                      style_top = Some (css_px s (snd final))\<rparr>"
    by (auto simp add: step_position_last f)
  show ?thesis using lp f x y c eased_last[OF st] by simp
qed

theorem moveTo_final_position_witness:
  "fault example_page = (\<lambda>n. None) \<and> elements example_page ''#btn'' = Some btn
   \<and> boundingBox btn = Some btn_box
   \<and> cursor_position example_page = (100, 100) \<and> center btn_box = (300, 200)
   \<and> fl (300 - 100) = 300 - 100 \<and> fl (200 - 100) = 200 - 100
   \<and> last (mouse_positions (new_events example_page
        (snd (moveTo ''#btn'' (Some \<lparr>move_duration = Some 500, move_steps = Some 20\<rparr>) example_page))))
      = (300, 200)
   \<and> cursor (snd (moveTo ''#btn'' (Some \<lparr>move_duration = Some 500, move_steps = Some 20\<rparr>) example_page))
      = Some \<lparr>style_left = Some 300, style_top = Some 200\<rparr>"
proof -
  have h1: "fault example_page = (\<lambda>n. None)" by (simp add: example_page_def blank_page_def)
  have h2: "elements example_page ''#btn'' = Some btn" by (simp add: example_page_def blank_page_def)
  have h3: "boundingBox btn = Some btn_box" by (simp add: btn_def)
  have h4: "1 \<le> nullish (chain (Some \<lparr>move_duration = Some 500, move_steps = Some 20\<rparr>) move_steps) 20"
    by (simp add: nullish_def chain_def)
  have cp: "cursor_position example_page = (100, 100)"
    by (simp add: cursor_position_def or_else_def example_page_def blank_page_def)
  have ce: "center btn_box = (300, 200)"
    by (simp add: center_def btn_box_def dadd_def ddiv_def)
  have px: "css_px example_page = (\<lambda>x. x)" by (simp add: example_page_def blank_page_def)
  have cu: "cursor example_page \<noteq> None" by (simp add: example_page_def blank_page_def)
  from moveTo_final_position[OF h1 h2 h3 h4 refl]
  show ?thesis using h1 h2 h3 cp ce px cu by (simp add: dadd_def dsub_def)
qed

text \<open>
  Claim C2 as stated has the last position exactly on the centre for any start and
  target. From the default start 100 to an element whose centre is the double nearest to
  10.7, the difference is rounded to a multiple of \<open>2^-46\<close> and the last position is two
  doubles above the centre (10.700000000000003).
\<close>

theorem moveTo_rounding_counterexample:
  "cursor_position offset_page = (100, 100)
   \<and> center offset_box = (3011782250804019 / 2 ^ 48, 200)
   \<and> last (mouse_positions (new_events offset_page (snd (moveTo ''#btn'' None offset_page))))
       = (752945562701005 / 2 ^ 46, 200)
   \<and> (752945562701005 / 2 ^ 46 :: real) \<noteq> 3011782250804019 / 2 ^ 48"
proof -
  have h1: "fault offset_page = (\<lambda>n. None)" by (simp add: offset_page_def blank_page_def)
  have h2: "elements offset_page ''#btn''
      = Some \<lparr>boundingBox = Some offset_box, clientRect = offset_box\<rparr>"
    by (simp add: offset_page_def blank_page_def)
  have h3: "boundingBox \<lparr>boundingBox = Some offset_box, clientRect = offset_box\<rparr> = Some offset_box"
    by simp
  have h4: "1 \<le> nullish (chain None move_steps) 20" by (simp add: nullish_def chain_def)
  have cp: "cursor_position offset_page = (100, 100)"
    by (simp add: cursor_position_def offset_page_def blank_page_def)
  have r1: "fl (6417629469002957 / 2 ^ 50 + 5) = 3011782250804019 / 2 ^ 48"
    by (subst fl_eval[where e=3]) (simp_all add: round_even_def Let_def)
  have r2: "fl (3011782250804019 / 2 ^ 48 - 100) = - (6283928855065395 / 2 ^ 46)"
    by (subst fl_eval[where e=6]) (simp_all add: round_even_def Let_def)
  have r3: "fl (100 + - (6283928855065395 / 2 ^ 46)) = 752945562701005 / 2 ^ 46"
    by (subst fl_eval[where e=3]) (simp_all add: round_even_def Let_def)
  have d5: "ddiv 10 2 = 5" and d20: "ddiv 40 2 = 20"
    by (simp_all add: ddiv_def)
  have a200: "dadd 180 20 = 200" and s100: "dsub 200 100 = 100" and a100: "dadd 100 100 = 200"
    by (simp_all add: dadd_def dsub_def)
  have cx: "dadd (6417629469002957 / 2 ^ 50) 5 = 3011782250804019 / 2 ^ 48"
    unfolding dadd_def by (rule r1)
  have sx: "dsub (3011782250804019 / 2 ^ 48) 100 = - (6283928855065395 / 2 ^ 46)"
    unfolding dsub_def by (rule r2)
  have lx: "dadd 100 (- (6283928855065395 / 2 ^ 46)) = 752945562701005 / 2 ^ 46"
    unfolding dadd_def by (rule r3)
  have ce: "center offset_box = (3011782250804019 / 2 ^ 48, 200)"
    unfolding center_def offset_box_def box.simps d5 d20 a200 cx by (rule refl)
  have la: "last (mouse_positions (new_events offset_page (snd (moveTo ''#btn'' None offset_page))))
       = (752945562701005 / 2 ^ 46, 200)"
    unfolding conjunct2[OF moveTo_last_position[OF h1 h2 h3 h4]] cp ce fst_conv snd_conv
      sx s100 lx a100
    by (rule refl)
  have ne: "(752945562701005 / 2 ^ 46 :: real) \<noteq> 3011782250804019 / 2 ^ 48" by simp
  from cp ce la ne show ?thesis by (intro conjI)
qed

text \<open>
  Claim C4. For every number of steps of at least 1, the eased value
  \<open>1 - (1 - i/steps)^3\<close> that \<open>moveTo\<close> computes does not decrease as the step index \<open>i\<close>
  grows from 1 to \<open>steps\<close>.
\<close>

theorem eased_monotone:
  assumes "1 \<le> steps" "1 \<le> i" "i \<le> j" "j \<le> steps"
  shows "eased steps i \<le> eased steps j"
proof -
  have pos: "(0::real) < of_int steps" using assms by simp
  have le: "(of_int i :: real) / of_int steps \<le> of_int j / of_int steps"
    using assms pos by (simp add: divide_right_mono)
  have j1: "(of_int j :: real) / of_int steps \<le> 1" using assms pos by simp
  have "(1 - of_int j / of_int steps) ^ 3 \<le> (1 - of_int i / of_int steps :: real) ^ 3"
    using le j1 by (intro power_mono) simp_all
  then show ?thesis by (simp add: eased_def)
qed

theorem eased_monotone_witness:
  "(1::int) \<le> 20 \<and> (1::int) \<le> 5 \<and> (5::int) \<le> 6 \<and> (6::int) \<le> 20 \<and> eased 20 5 \<le> eased 20 6"
  using eased_monotone[of 20 5 6] by simp

text \<open>
  Claim C5. A successful \<open>moveTo\<close> performs exactly \<open>steps\<close> position updates, each
  followed by a wait of \<open>duration / steps\<close> milliseconds: the events it adds are
  \<open>steps\<close> rounds of restyling the cursor element, moving the pointer and waiting. For
  \<open>moveTo('#btn', {duration: 500, steps: 20})\<close> from (100, 100) to a target centred at
  (300, 200) these are 20 rounds with a wait of 25 each, the last at (300, 200).
\<close>

theorem moveTo_steps_and_delay:
  assumes nf: "fault s = (\<lambda>_. None)"
    and el: "elements s selector = Some el"
    and bb: "boundingBox el = Some b"
    and st: "steps = nullish (chain options move_steps) 20"
    and du: "duration = nullish (chain options move_duration) 500"
  shows "fst (moveTo selector options s) = Inr ()
       \<and> new_events s (snd (moveTo selector options s)) =
           concat (map (\<lambda>i. step_events (cursor s \<noteq> None)
                              (step_position (cursor_position s) (center b) steps i)
                              (duration / of_int steps))
                    [1..steps])
       \<and> length (mouse_positions (new_events s (snd (moveTo selector options s)))) = nat steps"
proof -
  from moveTo_trace[OF nf el bb, of options] obtain s' where
    m: "moveTo selector options s = (Inr (), s')"
    and e: "events s' = events s @ concat (map (\<lambda>i. step_events (cursor s \<noteq> None)
            (step_position (cursor_position s) (center b) (nullish (chain options move_steps) 20) i)
            (nullish (chain options move_duration) 500 / of_int (nullish (chain options move_steps) 20)))
            [1..nullish (chain options move_steps) 20])"
    by blast
  have n: "new_events s s' = concat (map (\<lambda>i. step_events (cursor s \<noteq> None)
            (step_position (cursor_position s) (center b) steps i) (duration / of_int steps)) [1..steps])"
    using e st du by (simp add: new_events_append)
  have l: "length (mouse_positions (new_events s s')) = nat steps"
    by (simp only: n mouse_positions_steps length_map length_upto)
  show ?thesis using m n l by simp
qed

theorem moveTo_steps_and_delay_witness:
  "fault example_page = (\<lambda>n. None) \<and> elements example_page ''#btn'' = Some btn
   \<and> boundingBox btn = Some btn_box
   \<and> cursor_position example_page = (100, 100) \<and> center btn_box = (300, 200)
   \<and> new_events example_page
        (snd (moveTo ''#btn'' (Some \<lparr>move_duration = Some 500, move_steps = Some 20\<rparr>) example_page))
      = concat (map (\<lambda>i. step_events True (step_position (100, 100) (300, 200) 20 i) 25) [1..20])
   \<and> length (mouse_positions (new_events example_page
        (snd (moveTo ''#btn'' (Some \<lparr>move_duration = Some 500, move_steps = Some 20\<rparr>) example_page))))
      = 20
   \<and> step_position (100, 100) (300, 200) 20 20 = (300, 200)"
proof -
  have ce: "center btn_box = (300, 200)"
    by (simp add: center_def btn_box_def dadd_def ddiv_def)
  have sp: "step_position (100, 100) (300, 200) 20 20 = (300, 200)"
    by (simp add: step_position_last dadd_def dsub_def)
  show ?thesis
    using moveTo_steps_and_delay[of example_page "''#btn''" btn btn_box 20
          "Some \<lparr>move_duration = Some 500, move_steps = Some 20\<rparr>" 500]
    by (simp add: ce sp)
       (simp add: example_page_def blank_page_def btn_def nullish_def
          chain_def cursor_position_def or_else_def mouse_positions_steps)
qed

text \<open>
  Claim C10. When the cursor element exists and its \<open>left\<close> (or \<open>top\<close>) style parses to 0,
  \<open>moveTo\<close> starts the interpolation on that axis from 100, the value it uses when there
  is no cursor element, and not from 0.
\<close>

theorem moveTo_start_at_zero:
  assumes nf: "fault s = (\<lambda>_. None)"
    and el: "elements s selector = Some el"
    and bb: "boundingBox el = Some b"
    and cu: "cursor s = Some c"
    and st: "steps = nullish (chain options move_steps) 20"
  shows "(style_left c = Some 0 \<longrightarrow>
            fst (cursor_position s) = 100
          \<and> map fst (mouse_positions (new_events s (snd (moveTo selector options s))))
              = map (\<lambda>i. dadd 100 (dmul (dsub (fst (center b)) 100) (fl (eased steps i)))) [1..steps])
       \<and> (style_top c = Some 0 \<longrightarrow>
            snd (cursor_position s) = 100
          \<and> map snd (mouse_positions (new_events s (snd (moveTo selector options s))))
              = map (\<lambda>i. dadd 100 (dmul (dsub (snd (center b)) 100) (fl (eased steps i)))) [1..steps])"
proof -
  have p: "mouse_positions (new_events s (snd (moveTo selector options s))) =
     map (step_position (cursor_position s) (center b) steps) [1..steps]"
    unfolding st by (rule moveTo_positions[OF nf el bb])
  have l: "style_left c = Some 0 \<Longrightarrow> fst (cursor_position s) = 100"
    using cu by (simp add: cursor_position_def or_else_def)
  have t: "style_top c = Some 0 \<Longrightarrow> snd (cursor_position s) = 100"
    using cu by (simp add: cursor_position_def or_else_def)
  show ?thesis
    using l t by (simp add: p step_position_def comp_def)
qed

theorem moveTo_start_at_zero_witness:
  "fault fresh_page = (\<lambda>n. None) \<and> elements fresh_page ''#btn'' = Some btn
   \<and> boundingBox btn = Some btn_box
   \<and> cursor fresh_page = Some \<lparr>style_left = Some 0, style_top = Some 0\<rparr>
   \<and> cursor_position fresh_page = (100, 100)
   \<and> map fst (mouse_positions (new_events fresh_page (snd (moveTo ''#btn'' None fresh_page))))
       = map (\<lambda>i. dadd 100 (dmul (dsub 300 100) (fl (eased 20 i)))) [1..20]
   \<and> map snd (mouse_positions (new_events fresh_page (snd (moveTo ''#btn'' None fresh_page))))
       = map (\<lambda>i. dadd 100 (dmul (dsub 200 100) (fl (eased 20 i)))) [1..20]"
proof -
  have ce: "center btn_box = (300, 200)"
    by (simp add: center_def btn_box_def dadd_def ddiv_def)
  show ?thesis
    using moveTo_start_at_zero[of fresh_page "''#btn''" btn btn_box
            "\<lparr>style_left = Some 0, style_top = Some 0\<rparr>" 20 None]
    by (simp add: ce)
       (simp add: fresh_page_def example_page_def blank_page_def btn_def
          nullish_def chain_def cursor_position_def or_else_def)
qed

section \<open>Programs that only append to the trace\<close>


lemma appends_ret: "appends P (ret a)"
  by (simp add: appends_def ret_def)

lemma appends_emit: "P e \<Longrightarrow> appends P (\<lambda>s. (Inr a, emit e s))"
  by (simp add: appends_def emit_def)

lemma appends_logger_warn: "P (LoggerWarn m) \<Longrightarrow> appends P (logger_warn m)"
  by (simp add: appends_def emit_def logger_warn_def)

lemma appends_math_random: "appends P math_random"
  by (simp add: appends_def math_random_def)

lemma appends_call: "appends P f \<Longrightarrow> appends P (call f)"
  unfolding appends_def call_def
proof (intro allI)
  fix s
  assume a: "\<forall>s. \<exists>new. events (snd (f s)) = events s @ new \<and> (\<forall>e\<in>set new. P e)"
  show "\<exists>new. events (snd (case fault s (tick s) of
                       None \<Rightarrow> f (s\<lparr>tick := Suc (tick s)\<rparr>)
                     | Some e \<Rightarrow> (Inl e, s\<lparr>tick := Suc (tick s)\<rparr>))) = events s @ new
             \<and> (\<forall>e\<in>set new. P e)"
    using a[rule_format, of "s\<lparr>tick := Suc (tick s)\<rparr>"]
    by (cases "fault s (tick s)") auto
qed

lemma appends_and_then:
  assumes m: "appends P m" and f: "\<And>a. appends P (f a)"
  shows "appends P (and_then m f)"
  unfolding appends_def
proof
  fix s
  obtain r s1 where ms: "m s = (r, s1)" by (cases "m s")
  from m ms obtain n1 where n1: "events s1 = events s @ n1" "\<forall>e\<in>set n1. P e"
    unfolding appends_def by (metis snd_conv)
  show "\<exists>new. events (snd (and_then m f s)) = events s @ new \<and> (\<forall>e\<in>set new. P e)"
  proof (cases r)
    case (Inl e)
    then show ?thesis using ms n1 by (simp add: and_then_def)
  next
    case (Inr a)
    from f[of a] obtain n2 where "events (snd (f a s1)) = events s1 @ n2" "\<forall>e\<in>set n2. P e"
      unfolding appends_def by blast
    then have "events (snd (and_then m f s)) = events s @ (n1 @ n2) \<and> (\<forall>e\<in>set (n1 @ n2). P e)"
      using Inr ms n1 by (auto simp add: and_then_def)
    then show ?thesis by blast
  qed
qed

lemma appends_try_catch:
  assumes m: "appends P m" and h: "\<And>e. appends P (h e)"
  shows "appends P (try_catch m h)"
  unfolding appends_def
proof
  fix s
  obtain r s1 where ms: "m s = (r, s1)" by (cases "m s")
  from m ms obtain n1 where n1: "events s1 = events s @ n1" "\<forall>e\<in>set n1. P e"
    unfolding appends_def by (metis snd_conv)
  show "\<exists>new. events (snd (try_catch m h s)) = events s @ new \<and> (\<forall>e\<in>set new. P e)"
  proof (cases r)
    case (Inr a)
    then show ?thesis using ms n1 by (simp add: try_catch_def)
  next
    case (Inl e)
    from h[of e] obtain n2 where "events (snd (h e s1)) = events s1 @ n2" "\<forall>e\<in>set n2. P e"
      unfolding appends_def by blast
    then have "events (snd (try_catch m h s)) = events s @ (n1 @ n2) \<and> (\<forall>e\<in>set (n1 @ n2). P e)"
      using Inl ms n1 by (auto simp add: try_catch_def)
    then show ?thesis by blast
  qed
qed

lemma appends_new_events:
  "appends P m \<Longrightarrow> e \<in> set (new_events s (snd (m s))) \<Longrightarrow> P e"
  unfolding appends_def new_events_def
  by (metis append_eq_conv_conj)

lemma appends_waitForTimeout: "P (Timeout ms) \<Longrightarrow> appends P (waitForTimeout ms)"
  unfolding waitForTimeout_def by (intro appends_call appends_emit)

lemma appends_keyboard_type: "P (KeyboardType c) \<Longrightarrow> appends P (keyboard_type c)"
  unfolding keyboard_type_def by (intro appends_call appends_emit)

lemma appends_page_click: "P (Click selector) \<Longrightarrow> appends P (page_click selector)"
  unfolding page_click_def
  by (rule appends_call) (auto simp add: appends_def emit_def split: option.splits)

lemma type_chars_waits: "appends long_wait (type_chars delay variation str)"
proof (induction str)
  case Nil
  show ?case by (simp add: appends_ret)
next
  case (Cons c cs)
  show ?case
    by (simp, intro appends_and_then appends_keyboard_type appends_math_random
          appends_waitForTimeout Cons.IH) (simp_all add: long_wait_def)
qed

text \<open>Unfolding the helpers on a concrete page.\<close>

lemmas page_eval =
  typeAnimated_def type_chars.simps and_then_def try_catch_def ret_def call_def page_click_def
  waitForTimeout_def keyboard_type_def math_random_def logger_warn_def emit_def new_events_def
  nullish_def chain_def actualDelay_def example_page_def blank_page_def

text \<open>
  Claim C7. Whatever the configured delay and variation (negative ones included),
  whatever \<open>Math.random()\<close> returns and whether or not the call succeeds, every wait
  \<open>typeAnimated\<close> makes is of at least 10 milliseconds.
\<close>

theorem typeAnimated_delay_floor:
  "Timeout ms \<in> set (new_events s (snd (typeAnimated selector text options s))) \<Longrightarrow> 10 \<le> ms"
proof -
  have "appends long_wait (typeAnimated selector text options)"
    unfolding typeAnimated_def Let_def
    by (intro appends_try_catch appends_and_then appends_page_click appends_waitForTimeout
          type_chars_waits appends_logger_warn) (simp_all add: long_wait_def)
  then have "e \<in> set (new_events s (snd (typeAnimated selector text options s))) \<Longrightarrow> long_wait e" for e
    by (rule appends_new_events)
  from this[of "Timeout ms"] show "Timeout ms \<in> set (new_events s (snd (typeAnimated selector text options s))) \<Longrightarrow> 10 \<le> ms"
    by (simp add: long_wait_def)
qed

theorem typeAnimated_delay_floor_witness:
  "new_events example_page
     (snd (typeAnimated ''#input'' ''hi'' (Some \<lparr>type_delay = Some (- 100), type_variation = Some 20\<rparr>)
             example_page))
     = [Click ''#input'', Timeout 100, KeyboardType CHR ''h'', Timeout 10, KeyboardType CHR ''i'', Timeout 10]
   \<and> Timeout 10 \<in> set (new_events example_page
        (snd (typeAnimated ''#input'' ''hi'' (Some \<lparr>type_delay = Some (- 100), type_variation = Some 20\<rparr>)
                example_page)))
   \<and> (10::real) \<le> 10"
  using typeAnimated_delay_floor[of 10 example_page "''#input''" "''hi''"
          "Some \<lparr>type_delay = Some (- 100), type_variation = Some 20\<rparr>"]
  by (simp add: page_eval)


section \<open>Typing\<close>

lemma draws_Suc:
  "draws s (Suc n) = random s (drawn s) # draws (s\<lparr>drawn := Suc (drawn s)\<rparr>) n"
  by (simp add: draws_def map_upt_Suc del: upt_Suc)

lemma type_chars_ok:
  "fault s = (\<lambda>_. None) \<Longrightarrow>
   \<exists>s'. type_chars delay variation str s = (Inr (), s')
      \<and> events s' = events s @ concat (map (char_events delay variation) (zip str (draws s (length str))))"
proof (induction str arbitrary: s)
  case Nil
  show ?case by (simp add: ret_def)
next
  case (Cons c cs)
  let ?r = "random s (drawn s)"
  let ?s1 = "s\<lparr>tick := Suc (tick s), events := events s @ [KeyboardType c]\<rparr>"
  let ?s2 = "?s1\<lparr>drawn := Suc (drawn s)\<rparr>"
  let ?s3 = "?s2\<lparr>tick := Suc (Suc (tick s)),
                  events := events s @ [KeyboardType c, Timeout (max 10 (actualDelay delay variation ?r))]\<rparr>"
  have f3: "fault ?s3 = (\<lambda>_. None)" using Cons.prems by simp
  from Cons.IH[OF f3] obtain s' where
    t: "type_chars delay variation cs ?s3 = (Inr (), s')"
    and e: "events s' = events ?s3 @ concat (map (char_events delay variation) (zip cs (draws ?s3 (length cs))))"
    by blast
  have d: "draws ?s3 (length cs) = draws (s\<lparr>drawn := Suc (drawn s)\<rparr>) (length cs)"
    by (simp add: draws_def)
  have "type_chars delay variation (c # cs) s = (Inr (), s')"
    using Cons.prems t
    by (simp add: and_then_def keyboard_type_def math_random_def waitForTimeout_def call_def emit_def)
  moreover have "char_events delay variation (c, ?r)
      = [KeyboardType c, Timeout (max 10 (actualDelay delay variation ?r))]"
    by (simp add: char_events_def)
  ultimately show ?case using e d by (simp add: draws_Suc)
qed

lemma actualDelay_range:
  assumes "0 \<le> variation" "0 \<le> r" "r < 1"
  shows "delay - variation \<le> actualDelay delay variation r
       \<and> actualDelay delay variation r \<le> delay + variation"
proof -
  have nn: "0 \<le> r * variation * 2" using assms by simp
  then have lo: "(0::real) \<le> of_int \<lfloor>r * variation * 2\<rfloor>" by simp
  have "r * variation \<le> 1 * variation" using assms by (intro mult_right_mono) simp_all
  then have "r * variation * 2 \<le> variation * 2" by simp
  moreover have "of_int \<lfloor>r * variation * 2\<rfloor> \<le> r * variation * 2" by (rule of_int_floor_le)
  ultimately have hi: "of_int \<lfloor>r * variation * 2\<rfloor> \<le> variation * 2" by linarith
  show ?thesis using lo hi by (simp add: actualDelay_def)
qed

text \<open>
  Claim C6, as amended. A successful \<open>typeAnimated\<close> issues exactly one keyboard-input call
  per character of the text, each followed by a wait of
  \<open>max 10 (delay + \<lfloor>r * variation * 2\<rfloor> - variation)\<close>, where \<open>r\<close> is the value of a call of
  \<open>Math.random()\<close> made for that character alone. For a variation that is not negative and
  \<open>r\<close> in [0, 1) the jitter lies in [-variation, +variation], and the wait is the delay
  plus the jitter whenever \<open>delay - variation\<close> is at least 10. For the text \<open>hi\<close> with delay
  50 and variation 20 these are 2 character-input calls, each followed by a wait in
  [30, 70].
\<close>

theorem typeAnimated_per_character:
  assumes nf: "fault s = (\<lambda>_. None)"
    and el: "elements s selector = Some el"
    and de: "delay = nullish (chain options type_delay) 50"
    and va: "variation = nullish (chain options type_variation) 20"
  shows "fst (typeAnimated selector str options s) = Inr ()
       \<and> new_events s (snd (typeAnimated selector str options s))
           = [Click selector, Timeout 100]
             @ concat (map (\<lambda>(c, r). [KeyboardType c, Timeout (max 10 (actualDelay delay variation r))])
                         (zip str (draws s (length str))))
       \<and> (\<forall>r. 0 \<le> variation \<and> 0 \<le> r \<and> r < 1 \<longrightarrow>
             delay - variation \<le> actualDelay delay variation r
           \<and> actualDelay delay variation r \<le> delay + variation
           \<and> (10 \<le> delay - variation \<longrightarrow>
                max 10 (actualDelay delay variation r) = actualDelay delay variation r))"
proof -
  let ?s2 = "s\<lparr>tick := Suc (Suc (tick s)), events := events s @ [Click selector, Timeout 100]\<rparr>"
  have f2: "fault ?s2 = (\<lambda>_. None)" using nf by simp
  from type_chars_ok[OF f2, of delay variation str] obtain s' where
    t: "type_chars delay variation str ?s2 = (Inr (), s')"
    and e: "events s' = events ?s2 @ concat (map (char_events delay variation) (zip str (draws ?s2 (length str))))"
    by blast
  have d: "draws ?s2 (length str) = draws s (length str)" by (simp add: draws_def)
  have ce: "char_events delay variation = (\<lambda>(c, r). [KeyboardType c, Timeout (max 10 (actualDelay delay variation r))])"
    by (auto simp add: char_events_def fun_eq_iff)
  have m: "typeAnimated selector str options s = (Inr (), s')"
    using nf el t de va
    by (simp add: typeAnimated_def try_catch_def and_then_def page_click_def waitForTimeout_def
          call_def emit_def)
  have n: "new_events s s' = [Click selector, Timeout 100]
             @ concat (map (\<lambda>(c, r). [KeyboardType c, Timeout (max 10 (actualDelay delay variation r))])
                         (zip str (draws s (length str))))"
    using e d by (simp add: new_events_def ce)
  have r: "0 \<le> variation \<and> 0 \<le> r \<and> r < 1 \<longrightarrow>
             delay - variation \<le> actualDelay delay variation r
           \<and> actualDelay delay variation r \<le> delay + variation
           \<and> (10 \<le> delay - variation \<longrightarrow>
                max 10 (actualDelay delay variation r) = actualDelay delay variation r)" for r
    using actualDelay_range[of variation r delay] by auto
  show ?thesis using m n r by simp
qed

theorem typeAnimated_per_character_witness:
  "fault example_page = (\<lambda>n. None) \<and> elements example_page ''#input'' = Some btn
   \<and> draws example_page 2 = [0, 3 / 4]
   \<and> new_events example_page
        (snd (typeAnimated ''#input'' ''hi'' (Some \<lparr>type_delay = Some 50, type_variation = Some 20\<rparr>)
                example_page))
       = [Click ''#input'', Timeout 100,
          KeyboardType CHR ''h'', Timeout 30, KeyboardType CHR ''i'', Timeout 60]
   \<and> 50 - 20 \<le> actualDelay 50 20 (3 / 4) \<and> actualDelay 50 20 (3 / 4) \<le> 50 + 20"
proof -
  have h1: "fault example_page = (\<lambda>n. None)"
    by (simp add: example_page_def blank_page_def)
  have h2: "elements example_page ''#input'' = Some btn"
    by (simp add: example_page_def blank_page_def)
  have h3: "50 = nullish (chain (Some \<lparr>type_delay = Some 50, type_variation = Some 20\<rparr>) type_delay) 50"
    by (simp add: nullish_def chain_def)
  have h4: "20 = nullish (chain (Some \<lparr>type_delay = Some 50, type_variation = Some 20\<rparr>) type_variation) 20"
    by (simp add: nullish_def chain_def)
  have d: "draws example_page (length ''hi'') = [0, 3 / 4]"
    by (simp add: draws_def example_page_def blank_page_def)
  have d1: "draws example_page (Suc (Suc 0)) = [0, 3 / 4]"
    using d by simp
  have d2: "draws example_page 2 = [0, 3 / 4]"
    using d by (simp add: numeral_2_eq_2)
  from typeAnimated_per_character[OF h1 h2 h3 h4, of "''hi''"]
  show ?thesis using h1 h2 d2 by (simp add: d1 actualDelay_def)
qed

text \<open>
  Claim C6 as stated leaves the floor out: with delay 0 and variation 0 the wait after
  the character is 10, which is not the delay plus a value in [-0, +0].
\<close>

theorem typeAnimated_floor_counterexample:
  "new_events example_page
     (snd (typeAnimated ''#input'' ''a'' (Some \<lparr>type_delay = Some 0, type_variation = Some 0\<rparr>)
             example_page))
     = [Click ''#input'', Timeout 100, KeyboardType CHR ''a'', Timeout 10]
   \<and> \<not> in_jitter_range 0 0 10"
  by (simp add: page_eval in_jitter_range_def)

section \<open>A selector that matches nothing\<close>


text \<open>
  Claim C1, as amended. When the selector matches no element (and the calls into the page
  succeed), \<open>highlight(selector, 500)\<close> logs a warning on the console of the page, creates
  no overlay, and still waits \<open>durationMs + 200\<close> milliseconds (700 here) before it returns:
  the wait follows the script whatever the script found.
\<close>

theorem highlight_missing_element:
  assumes nf: "fault s = (\<lambda>_. None)" and el: "elements s selector = None"
  shows "fst (highlight selector durationMs s) = Inr ()
       \<and> new_events s (snd (highlight selector durationMs s))
          = [ConsoleWarn (''Highlight: Element not found for selector: '' @ selector),
             Timeout (nullish durationMs 500 + 200)]
       \<and> filter is_overlay (new_events s (snd (highlight selector durationMs s))) = []"
  using nf el
  by (simp add: highlight_def highlightElement_def highlight_script_def try_catch_def and_then_def
        evaluate_def waitForTimeout_def call_def emit_def new_events_def is_overlay_def)

theorem highlight_missing_element_witness:
  "fault blank_page = (\<lambda>n. None) \<and> elements blank_page ''.missing'' = None
   \<and> new_events blank_page (snd (highlight ''.missing'' (Some 500) blank_page))
      = [ConsoleWarn ''Highlight: Element not found for selector: .missing'', Timeout 700]
   \<and> filter is_overlay (new_events blank_page (snd (highlight ''.missing'' (Some 500) blank_page))) = []"
  using highlight_missing_element[of blank_page "''.missing''" "Some 500"]
  by (simp add: blank_page_def nullish_def is_overlay_def)

text \<open>
  Claim C1 as stated says the call returns without the wait of 700 milliseconds; the trace
  of \<open>highlight('.missing', 500)\<close> on a page without elements holds that wait.
\<close>

theorem highlight_missing_waits_counterexample:
  "elements blank_page ''.missing'' = None
   \<and> Timeout 700 \<in> set (new_events blank_page (snd (highlight ''.missing'' (Some 500) blank_page)))"
  by (simp add: highlight_def highlightElement_def highlight_script_def try_catch_def and_then_def
        evaluate_def waitForTimeout_def call_def emit_def new_events_def blank_page_def nullish_def)

lemma catch_warn_returns: "fst (try_catch m (\<lambda>e. logger_warn msg) s) = Inr ()"
  by (cases "m s") (auto simp add: try_catch_def logger_warn_def split: sum.splits)

lemma moveTo_missing:
  assumes "elements s selector = None"
  shows "\<exists>w. moveTo selector options s
            = (Inr (), s\<lparr>tick := Suc (tick s), events := events s @ [LoggerWarn w]\<rparr>)"
  using assms
  by (cases "fault s (tick s)")
     (auto simp add: moveTo_def try_catch_def and_then_def page_query_def call_def logger_warn_def
        emit_def Let_def)

lemma typeAnimated_missing:
  assumes "elements s selector = None"
  shows "typeAnimated selector str options s
            = (Inr (), s\<lparr>tick := Suc (tick s),
                 events := events s @ [LoggerWarn (''Failed to type in element: '' @ selector)]\<rparr>)"
  using assms
  by (cases "fault s (tick s)")
     (simp_all add: typeAnimated_def try_catch_def and_then_def page_click_def call_def logger_warn_def
        emit_def Let_def)

lemma highlight_missing_warns:
  assumes "elements s selector = None"
  shows "\<exists>e \<in> set (new_events s (snd (highlight selector durationMs s))). is_warning e"
  using assms
  by (cases "fault s (tick s)"; cases "fault s (Suc (tick s))")
     (simp_all add: highlight_def highlightElement_def highlight_script_def try_catch_def and_then_def
        evaluate_def waitForTimeout_def call_def emit_def new_events_def logger_warn_def is_warning_def)

lemma clickAnimated_missing_warns:
  assumes el: "elements s selector = None"
  shows "\<exists>e \<in> set (new_events s (snd (clickAnimated selector options s))). is_warning e"
proof -
  let ?mo = "Some \<lparr>move_duration = Some (nullish (chain options click_moveDuration) 400), move_steps = None\<rparr>"
  from moveTo_missing[OF el, of ?mo] obtain w where
    m: "moveTo selector ?mo s = (Inr (), s\<lparr>tick := Suc (tick s), events := events s @ [LoggerWarn w]\<rparr>)"
    by blast
  show ?thesis
    using el m
    by (cases "fault s (Suc (tick s))"; cases "fault s (Suc (Suc (tick s)))";
        cases "fault s (Suc (Suc (Suc (tick s))))")
       (simp_all add: clickAnimated_def try_catch_def and_then_def Let_def waitForTimeout_def
          evaluate_def ripple_script_def page_click_def call_def emit_def logger_warn_def
          new_events_def is_warning_def)
qed

text \<open>
  Claim C3, as amended. For a selector that matches no element, none of \<open>highlight\<close>,
  \<open>clickAnimated\<close>, \<open>typeAnimated\<close>, \<open>moveTo\<close> and \<open>zoomHighlight\<close> raises to the caller,
  whatever else fails in the page; \<open>highlight\<close>, \<open>clickAnimated\<close>, \<open>typeAnimated\<close> and
  \<open>moveTo\<close> log a warning during the call.
\<close>

theorem helpers_never_raise:
  assumes el: "elements s selector = None"
  shows "fst (highlight selector durationMs s) = Inr ()
       \<and> fst (clickAnimated selector clickOptions s) = Inr ()
       \<and> fst (typeAnimated selector str typeOptions s) = Inr ()
       \<and> fst (moveTo selector moveOptions s) = Inr ()
       \<and> fst (zoomHighlight selector zoomOptions s) = Inr ()
       \<and> (\<exists>e \<in> set (new_events s (snd (highlight selector durationMs s))). is_warning e)
       \<and> (\<exists>e \<in> set (new_events s (snd (clickAnimated selector clickOptions s))). is_warning e)
       \<and> (\<exists>e \<in> set (new_events s (snd (typeAnimated selector str typeOptions s))). is_warning e)
       \<and> (\<exists>e \<in> set (new_events s (snd (moveTo selector moveOptions s))). is_warning e)"
proof -
  have r: "fst (highlight selector durationMs s) = Inr ()"
      "fst (clickAnimated selector clickOptions s) = Inr ()"
      "fst (typeAnimated selector str typeOptions s) = Inr ()"
      "fst (moveTo selector moveOptions s) = Inr ()"
      "fst (zoomHighlight selector zoomOptions s) = Inr ()"
    by (simp_all add: highlight_def highlightElement_def clickAnimated_def typeAnimated_def
          moveTo_def zoomHighlight_def Let_def catch_warn_returns)
  have t: "\<exists>e \<in> set (new_events s (snd (typeAnimated selector str typeOptions s))). is_warning e"
    by (simp add: typeAnimated_missing[OF el] new_events_def is_warning_def)
  from moveTo_missing[OF el, of moveOptions]
  have m: "\<exists>e \<in> set (new_events s (snd (moveTo selector moveOptions s))). is_warning e"
    by (auto simp add: new_events_def is_warning_def)
  show ?thesis
    using r t m highlight_missing_warns[OF el] clickAnimated_missing_warns[OF el] by simp
qed

theorem helpers_never_raise_witness:
  "elements blank_page ''.missing'' = None
   \<and> highlight ''.missing'' None blank_page
       = (Inr (), blank_page\<lparr>tick := 2, events :=
            [ConsoleWarn ''Highlight: Element not found for selector: .missing'', Timeout 700]\<rparr>)
   \<and> fst (clickAnimated ''.missing'' None blank_page) = Inr ()
   \<and> fst (typeAnimated ''.missing'' ''hi'' None blank_page) = Inr ()
   \<and> fst (moveTo ''.missing'' None blank_page) = Inr ()
   \<and> fst (zoomHighlight ''.missing'' None blank_page) = Inr ()
   \<and> new_events blank_page (snd (moveTo ''.missing'' None blank_page))
       = [LoggerWarn ''Element not found for moveTo: .missing'']"
  using helpers_never_raise[of blank_page "''.missing''" None None "''hi''" None None None]
  by (simp add: blank_page_def highlight_def highlightElement_def highlight_script_def
        try_catch_def and_then_def evaluate_def waitForTimeout_def call_def emit_def nullish_def
        moveTo_def page_query_def logger_warn_def new_events_def chain_def)

text \<open>
  Claim C3 as stated promises a warning from each of the five helpers; \<open>zoomHighlight\<close> on
  a selector that matches nothing waits and returns without logging any.
\<close>

theorem zoomHighlight_silent_counterexample:
  "elements blank_page ''.missing'' = None
   \<and> zoomHighlight ''.missing'' None blank_page
       = (Inr (), blank_page\<lparr>tick := 2, events := [Timeout 600]\<rparr>)
   \<and> filter is_warning (new_events blank_page (snd (zoomHighlight ''.missing'' None blank_page))) = []"
  by (simp add: blank_page_def zoomHighlight_def zoom_script_def try_catch_def and_then_def
        evaluate_def waitForTimeout_def call_def emit_def nullish_def chain_def new_events_def
        is_warning_def)

section \<open>Paths\<close>

lemma split_slash_ne [simp]: "split_slash s \<noteq> []"
  by (induction s) (auto split: list.splits)








section \<open>What a recording leaves alone\<close>



lemma steady_weaken: "steady Q m \<Longrightarrow> steady (\<lambda>a D. True) m"
  by (simp add: steady_def)



























section \<open>Every exit of a recording\<close>


































section \<open>Recording without the transcoder\<close>









end
